theory Spec2Isabelle
  imports Complex_Main "HOL-Library.Log_Nat"
begin

section \<open>Go's float64\<close>

text \<open>
  The fields and results of \<^verbatim>\<open>src/func.go\<close> are Go \<^verbatim>\<open>float64\<close> values: IEEE 754
  binary64 numbers with round-to-nearest, ties-to-even arithmetic.  A value is a
  not-a-number, one of the two infinities, the negative zero, or a finite rational
  (\<open>Fin 0\<close> is the positive zero).  NaN payloads are not distinguished.
\<close>

datatype float64 = NaN | PInf | NInf | NZero | Fin rat

definition pow2 :: "int \<Rightarrow> rat" where
  "pow2 e = (if 0 \<le> e then 2 ^ nat e else 1 / 2 ^ nat (- e))"

text \<open>The binary exponent \<open>\<lfloor>log\<^sub>2 q\<rfloor>\<close> of a positive rational.\<close>

definition ilog2 :: "rat \<Rightarrow> int" where
  "ilog2 q = (let k = bitlen (fst (quotient_of q)) - bitlen (snd (quotient_of q))
              in if pow2 k \<le> q then k else k - 1)"

text \<open>Rounding a rational to the nearest integer, ties to the even one.\<close>

definition rne :: "rat \<Rightarrow> int" where
  "rne s = (let f = \<lfloor>s\<rfloor>; r = s - of_int f
            in if r < 1 / 2 then f
               else if 1 / 2 < r then f + 1
               else if even f then f else f + 1)"

text \<open>
  Rounding an exact result to binary64: 53 significant bits, least exponent \<open>-1022\<close>
  (gradual underflow below it, the grid there is \<open>2\<^sup>-\<^sup>1\<^sup>0\<^sup>7\<^sup>4\<close>), overflow to an
  infinity from \<open>2\<^sup>1\<^sup>0\<^sup>2\<^sup>4\<close> on.  A non-zero value that rounds to zero keeps its sign.
\<close>

definition round64 :: "rat \<Rightarrow> float64" where
  "round64 q =
     (if q = 0 then Fin 0
      else let u = max (ilog2 \<bar>q\<bar>) (- 1022) - 52;
               n = rne (\<bar>q\<bar> / pow2 u);
               m = of_int n * pow2 u
           in if pow2 1024 \<le> m then (if q < 0 then NInf else PInf)
              else if n = 0 then (if q < 0 then NZero else Fin 0)
              else Fin (if q < 0 then - m else m))"

definition is_nan :: "float64 \<Rightarrow> bool" where
  "is_nan x = (x = NaN)"

definition is_inf :: "float64 \<Rightarrow> bool" where
  "is_inf x = (x = PInf \<or> x = NInf)"

definition is_zero :: "float64 \<Rightarrow> bool" where
  "is_zero x = (x = NZero \<or> x = Fin 0)"

definition is_finite :: "float64 \<Rightarrow> bool" where
  "is_finite x = (\<not> is_nan x \<and> \<not> is_inf x)"

text \<open>The sign bit (of a value that is not a NaN).\<close>

fun sign_bit :: "float64 \<Rightarrow> bool" where
  "sign_bit NaN = False"
| "sign_bit PInf = False"
| "sign_bit NInf = True"
| "sign_bit NZero = True"
| "sign_bit (Fin q) = (q < 0)"

text \<open>The rational a finite value stands for; both zeros stand for 0.\<close>

fun val :: "float64 \<Rightarrow> rat" where
  "val (Fin q) = q"
| "val _ = 0"

fun fneg :: "float64 \<Rightarrow> float64" where
  "fneg NaN = NaN"
| "fneg PInf = NInf"
| "fneg NInf = PInf"
| "fneg NZero = Fin 0"
| "fneg (Fin q) = (if q = 0 then NZero else Fin (- q))"

text \<open>Go's \<^verbatim>\<open>x + y\<close> on float64.\<close>

definition fadd :: "float64 \<Rightarrow> float64 \<Rightarrow> float64" where
  "fadd x y =
     (if is_nan x \<or> is_nan y then NaN
      else if is_inf x then (if is_inf y \<and> x \<noteq> y then NaN else x)
      else if is_inf y then y
      else if is_zero x \<and> is_zero y then (if x = NZero \<and> y = NZero then NZero else Fin 0)
      else round64 (val x + val y))"

text \<open>Go's \<^verbatim>\<open>x - y\<close> on float64.\<close>

definition fsub :: "float64 \<Rightarrow> float64 \<Rightarrow> float64" where
  "fsub x y = fadd x (fneg y)"

text \<open>Go's \<^verbatim>\<open>x * y\<close> on float64.\<close>

definition fmul :: "float64 \<Rightarrow> float64 \<Rightarrow> float64" where
  "fmul x y =
     (if is_nan x \<or> is_nan y then NaN
      else if (is_inf x \<and> is_zero y) \<or> (is_zero x \<and> is_inf y) then NaN
      else if is_inf x \<or> is_inf y then (if sign_bit x \<noteq> sign_bit y then NInf else PInf)
      else if is_zero x \<or> is_zero y then (if sign_bit x \<noteq> sign_bit y then NZero else Fin 0)
      else round64 (val x * val y))"

text \<open>Go's \<^verbatim>\<open>x / y\<close> on float64 (no panic: division by zero gives an infinity or a NaN).\<close>

definition fdiv :: "float64 \<Rightarrow> float64 \<Rightarrow> float64" where
  "fdiv x y =
     (if is_nan x \<or> is_nan y then NaN
      else if (is_inf x \<and> is_inf y) \<or> (is_zero x \<and> is_zero y) then NaN
      else if is_inf x \<or> is_zero y then (if sign_bit x \<noteq> sign_bit y then NInf else PInf)
      else if is_inf y \<or> is_zero x then (if sign_bit x \<noteq> sign_bit y then NZero else Fin 0)
      else round64 (val x / val y))"

text \<open>The integer square root \<open>\<lfloor>\<surd>n\<rfloor>\<close>.\<close>

fun isqrt :: "nat \<Rightarrow> nat" where
  "isqrt n = (if n < 2 then n
              else let s = 2 * isqrt (n div 4)
                   in if (s + 1) * (s + 1) \<le> n then s + 1 else s)"

declare isqrt.simps [simp del]

text \<open>
  The correctly rounded square root of a positive rational: with \<open>u\<close> the exponent of
  the last place of the result, the 53-bit significand is \<open>\<surd>(q / 4\<^sup>u)\<close> rounded to the
  nearest integer.
\<close>

definition sqrt64 :: "rat \<Rightarrow> float64" where
  "sqrt64 q =
     (let u = ilog2 q div 2 - 52;
          y = q / pow2 (2 * u);
          s = int (isqrt (nat \<lfloor>y\<rfloor>));
          t = of_int s + 1 / 2;
          n = (if y < t * t then s else if t * t < y then s + 1
               else if even s then s else s + 1)
      in Fin (of_int n * pow2 u))"

text \<open>
  \<^verbatim>\<open>math.Sqrt\<close>: \<^verbatim>\<open>Sqrt(+Inf) = +Inf\<close>, \<^verbatim>\<open>Sqrt(\<plusminus>0) = \<plusminus>0\<close>, \<^verbatim>\<open>Sqrt(x < 0) = NaN\<close>,
  \<^verbatim>\<open>Sqrt(NaN) = NaN\<close>.
\<close>

fun fsqrt :: "float64 \<Rightarrow> float64" where
  "fsqrt NaN = NaN"
| "fsqrt PInf = PInf"
| "fsqrt NInf = NaN"
| "fsqrt NZero = NZero"
| "fsqrt (Fin q) = (if q < 0 then NaN else if q = 0 then Fin 0 else sqrt64 q)"

text \<open>Go's \<^verbatim>\<open>x == y\<close> on float64: a NaN equals nothing, the two zeros are equal.\<close>

definition feq :: "float64 \<Rightarrow> float64 \<Rightarrow> bool" where
  "feq x y = (\<not> is_nan x \<and> \<not> is_nan y \<and> (x = y \<or> (is_zero x \<and> is_zero y)))"


section \<open>The shapes of \<^verbatim>\<open>src/func.go\<close>\<close>


record Triangle =
  A :: float64
  B :: float64
  C :: float64

record Rectangle =
  Width :: float64
  Height :: float64



text \<open>\<^verbatim>\<open>func (t Triangle) Perimeter() float64 { return t.A + t.B + t.C }\<close>\<close>

definition Triangle_Perimeter :: "Triangle \<Rightarrow> float64" where
  "Triangle_Perimeter t = fadd (fadd (A t) (B t)) (C t)"

text \<open>
  \<^verbatim>\<open>func (t Triangle) Area() float64 {
      p := t.Perimeter() / 2
      return math.Sqrt(p * (p - t.A) * (p - t.B) * (p - t.C)) }\<close>
\<close>

definition Triangle_Area :: "Triangle \<Rightarrow> float64" where
  "Triangle_Area t =
     (let p = fdiv (Triangle_Perimeter t) (Fin 2)
      in fsqrt (fmul (fmul (fmul p (fsub p (A t))) (fsub p (B t))) (fsub p (C t))))"

text \<open>\<^verbatim>\<open>func (r Rectangle) Perimeter() float64 { return 2 * (r.Width + r.Height) }\<close>\<close>

definition Rectangle_Perimeter :: "Rectangle \<Rightarrow> float64" where
  "Rectangle_Perimeter r = fmul (Fin 2) (fadd (Width r) (Height r))"

text \<open>\<^verbatim>\<open>func (r Rectangle) Area() float64 { return r.Width * r.Height }\<close>\<close>

definition Rectangle_Area :: "Rectangle \<Rightarrow> float64" where
  "Rectangle_Area r = fmul (Width r) (Height r)"





text \<open>
  A float64 holds a value of the binary64 grid: a finite value is one that rounding
  leaves alone.
\<close>

definition is_float64 :: "float64 \<Rightarrow> bool" where
  "is_float64 x = (case x of Fin q \<Rightarrow> round64 q = Fin q | _ \<Rightarrow> True)"






section \<open>The spec's formulas, read in float64 arithmetic\<close>

text \<open>
  Heron's formula as the spec words it: from the semi-perimeter \<open>p\<close> and the sides,
  \<open>sqrt(p*(p-a)*(p-b)*(p-c))\<close>, every operation being the float64 one and the product
  taken left to right.
\<close>

definition semi_perimeter :: "Triangle \<Rightarrow> float64" where
  "semi_perimeter t = fdiv (Triangle_Perimeter t) (Fin 2)"

definition Heron_radicand :: "float64 \<Rightarrow> float64 \<Rightarrow> float64 \<Rightarrow> float64 \<Rightarrow> float64" where
  "Heron_radicand p a b c = fmul (fmul (fmul p (fsub p a)) (fsub p b)) (fsub p c)"

definition Heron_spec :: "float64 \<Rightarrow> float64 \<Rightarrow> float64 \<Rightarrow> float64 \<Rightarrow> float64" where
  "Heron_spec p a b c = fsqrt (Heron_radicand p a b c)"

section \<open>Facts about the float64 arithmetic\<close>

lemma pow2_powi: "pow2 e = 2 powi e"
  by (simp add: pow2_def power_int_def inverse_eq_divide power_one_over)

lemma pow2_pos [simp]: "0 < pow2 e"
  by (simp add: pow2_powi)

lemma pow2_nonzero [simp]: "pow2 e \<noteq> 0"
  using pow2_pos [of e] by linarith

lemma pow2_add: "pow2 (a + b) = pow2 a * pow2 b"
  by (simp add: pow2_powi power_int_add)

lemma pow2_diff: "pow2 (a - b) = pow2 a / pow2 b"
  by (simp add: pow2_powi power_int_diff)

lemma pow2_strict_mono: "a < b \<Longrightarrow> pow2 a < pow2 b"
  by (simp add: pow2_powi power_int_strict_increasing)

lemma pow2_mono: "a \<le> b \<Longrightarrow> pow2 a \<le> pow2 b"
  by (simp add: pow2_powi power_int_increasing)

lemma pow2_less_iff [simp]: "pow2 a < pow2 b \<longleftrightarrow> a < b"
  using pow2_strict_mono [of a b] pow2_mono [of b a] by (cases "a < b") auto

lemma pow2_le_iff [simp]: "pow2 a \<le> pow2 b \<longleftrightarrow> a \<le> b"
  by (metis pow2_less_iff not_less)

lemma pow2_nat: "0 \<le> e \<Longrightarrow> pow2 e = 2 ^ nat e"
  by (simp add: pow2_def)

lemma pow2_0 [simp]: "pow2 0 = 1"
  by (simp add: pow2_def)

lemma pow2_1 [simp]: "pow2 1 = 2"
  by (simp add: pow2_def)

lemma pow2_Suc: "pow2 (e + 1) = 2 * pow2 e"
  by (simp add: pow2_add)

lemma bitlen_pow2_bounds:
  assumes "0 < a"
  shows "pow2 (bitlen a - 1) \<le> of_int a" "of_int a < pow2 (bitlen a)"
proof -
  have b: "2 ^ nat (bitlen a - 1) \<le> a" "a < 2 ^ nat (bitlen a)"
    using bitlen_bounds [OF assms] by auto
  have ge1: "1 \<le> bitlen a"
    using assms bitlen_eq_zero_iff [of a] bitlen_nonneg [of a] by linarith
  have "(of_int (2 ^ nat (bitlen a - 1)) :: rat) \<le> of_int a"
    using b(1) of_int_le_iff by blast
  then show "pow2 (bitlen a - 1) \<le> of_int a"
    using ge1 by (simp add: pow2_nat)
  have "(of_int a :: rat) < of_int (2 ^ nat (bitlen a))"
    using b(2) of_int_less_iff by blast
  then show "of_int a < pow2 (bitlen a)"
    using ge1 by (simp add: pow2_nat)
qed

lemma ilog2_bounds:
  assumes "0 < q"
  shows "pow2 (ilog2 q) \<le> q \<and> q < pow2 (ilog2 q + 1)"
proof -
  obtain a b where ab: "quotient_of q = (a, b)" by (cases "quotient_of q")
  have bpos: "0 < b" using ab quotient_of_denom_pos by blast
  have q: "q = of_int a / of_int b" using ab quotient_of_div by blast
  have apos: "0 < a"
    using assms bpos q by (simp add: zero_less_divide_iff)
  define k where "k = bitlen a - bitlen b"
  have "q < pow2 (bitlen a) / pow2 (bitlen b - 1)"
    unfolding q using bitlen_pow2_bounds [OF apos] bitlen_pow2_bounds [OF bpos] bpos apos
    by (intro frac_less) simp_all
  then have up: "q < pow2 (k + 1)"
    by (simp add: k_def pow2_diff [symmetric] algebra_simps)
  have il: "ilog2 q = (if pow2 k \<le> q then k else k - 1)"
    by (simp add: ilog2_def ab k_def Let_def)
  have "pow2 (bitlen a - 1) / pow2 (bitlen b) \<le> q"
    unfolding q using bitlen_pow2_bounds [OF apos] bitlen_pow2_bounds [OF bpos] bpos apos
    by (intro frac_le) simp_all
  then have lo: "pow2 (k - 1) \<le> q"
    by (simp add: k_def pow2_diff [symmetric] algebra_simps)
  show ?thesis
  proof (cases "pow2 k \<le> q")
    case True
    then show ?thesis using up il by simp
  next
    case False
    then show ?thesis using lo il by simp
  qed
qed

lemma ilog2_unique:
  assumes "pow2 k \<le> q" "q < pow2 (k + 1)"
  shows "ilog2 q = k"
proof -
  have "0 < q" using assms(1) pow2_pos [of k] by linarith
  then have b: "pow2 (ilog2 q) \<le> q" "q < pow2 (ilog2 q + 1)"
    using ilog2_bounds by blast+
  have "pow2 k < pow2 (ilog2 q + 1)" using assms(1) b(2) by linarith
  moreover have "pow2 (ilog2 q) < pow2 (k + 1)" using assms(2) b(1) by linarith
  ultimately show ?thesis by simp
qed


lemma round64_at:
  assumes "pow2 k \<le> \<bar>q\<bar>" "\<bar>q\<bar> < pow2 (k + 1)"
  shows "round64 q =
     (let u = max k (- 1022) - 52;
          n = rne (\<bar>q\<bar> / pow2 u);
          m = of_int n * pow2 u
      in if pow2 1024 \<le> m then (if q < 0 then NInf else PInf)
         else if n = 0 then (if q < 0 then NZero else Fin 0)
         else Fin (if q < 0 then - m else m))"
proof -
  have "0 < \<bar>q\<bar>" using assms(1) pow2_pos [of k] by linarith
  then have "q \<noteq> 0" by simp
  moreover have "ilog2 \<bar>q\<bar> = k" using assms by (rule ilog2_unique)
  ultimately show ?thesis by (simp add: round64_def)
qed

lemma rne_of_int [simp]: "rne (of_int n) = n"
  by (simp add: rne_def)

lemma isqrt_bounds: "isqrt n * isqrt n \<le> n \<and> n < (isqrt n + 1) * (isqrt n + 1)"
proof (induction n rule: isqrt.induct)
  case (1 n)
  show ?case
  proof (cases "n < 2")
    case True
    then show ?thesis by (simp add: isqrt.simps [of n])
  next
    case False
    define r where "r = isqrt (n div 4)"
    have ih: "r * r \<le> n div 4" "n div 4 < (r + 1) * (r + 1)"
      using 1 [OF False] by (simp_all add: r_def)
    have lo: "(2 * r) * (2 * r) \<le> n"
    proof -
      have "4 * (r * r) \<le> 4 * (n div 4)" using ih(1) by simp
      also have "\<dots> \<le> n" by simp
      finally show ?thesis by (simp add: algebra_simps)
    qed
    have hi: "n < (2 * r + 2) * (2 * r + 2)"
    proof -
      have "n div 4 + 1 \<le> (r + 1) * (r + 1)" using ih(2) by simp
      then have "4 * (n div 4) + 4 \<le> 4 * ((r + 1) * (r + 1))" by simp
      moreover have "n < 4 * (n div 4) + 4"
        by (metis add.commute div_less_iff_less_mult lessI mult.commute mult_Suc_right zero_less_numeral)
      ultimately have "n < 4 * ((r + 1) * (r + 1))" by linarith
      then show ?thesis by (simp add: algebra_simps)
    qed
    have eq: "isqrt n = (if (2 * r + 1) * (2 * r + 1) \<le> n then 2 * r + 1 else 2 * r)"
      using False by (simp add: isqrt.simps [of n] r_def Let_def)
    show ?thesis
    proof (cases "(2 * r + 1) * (2 * r + 1) \<le> n")
      case True
      then show ?thesis using eq hi by (simp add: algebra_simps)
    next
      case False
      then show ?thesis using eq lo by (simp add: algebra_simps not_le)
    qed
  qed
qed

lemma isqrt_unique:
  assumes "s * s \<le> n" "n < (s + 1) * (s + 1)"
  shows "isqrt n = s"
proof (rule ccontr)
  assume ne: "isqrt n \<noteq> s"
  have b: "isqrt n * isqrt n \<le> n" "n < (isqrt n + 1) * (isqrt n + 1)"
    using isqrt_bounds [of n] by simp_all
  show False
  proof (cases "isqrt n < s")
    case True
    then have "isqrt n + 1 \<le> s" by linarith
    from mult_le_mono [OF this this]
    have "(isqrt n + 1) * (isqrt n + 1) \<le> s * s" .
    then show False using assms(1) b(2) by linarith
  next
    case False
    then have "s + 1 \<le> isqrt n" using ne by linarith
    from mult_le_mono [OF this this]
    have "(s + 1) * (s + 1) \<le> isqrt n * isqrt n" .
    then show False using assms(2) b(1) by linarith
  qed
qed

lemma sqrt64_at:
  assumes "pow2 k \<le> q" "q < pow2 (k + 1)"
    and "s * s \<le> nat \<lfloor>q / pow2 (2 * (k div 2 - 52))\<rfloor>"
    and "nat \<lfloor>q / pow2 (2 * (k div 2 - 52))\<rfloor> < (s + 1) * (s + 1)"
  shows "sqrt64 q =
     (let u = k div 2 - 52;
          y = q / pow2 (2 * u);
          t = of_int (int s) + 1 / 2;
          n = (if y < t * t then int s else if t * t < y then int s + 1
               else if even (int s) then int s else int s + 1)
      in Fin (of_int n * pow2 u))"
proof -
  have h1: "ilog2 q = k" using assms(1,2) by (rule ilog2_unique)
  have h2: "isqrt (nat \<lfloor>q / pow2 (2 * (k div 2 - 52))\<rfloor>) = s"
    using assms(3,4) by (rule isqrt_unique)
  show ?thesis
    by (simp only: sqrt64_def Let_def h1 h2)
qed

lemma rne_eqI:
  assumes "\<bar>s - of_int n\<bar> < 1 / 2 \<or> (\<bar>s - of_int n\<bar> = 1 / 2 \<and> even n)"
  shows "rne s = n"
proof (cases "s < of_int n")
  case True
  have lo: "of_int n - 1 / 2 \<le> s" using assms by linarith
  have fl: "\<lfloor>s\<rfloor> = n - 1"
    by (rule floor_unique) (use True lo in simp_all)
  show ?thesis
  proof (cases "s = of_int n - 1 / 2")
    case True
    then have "even n" using assms by auto
    then show ?thesis using True fl by (simp add: rne_def)
  next
    case False
    then have "of_int n - 1 / 2 < s" using lo by linarith
    then show ?thesis using fl by (simp add: rne_def)
  qed
next
  case False
  have hi: "s \<le> of_int n + 1 / 2" using assms by linarith
  have fl: "\<lfloor>s\<rfloor> = n"
    by (rule floor_unique) (use False hi in simp_all)
  show ?thesis
  proof (cases "s = of_int n + 1 / 2")
    case True
    then have "even n" using assms by auto
    then show ?thesis using True fl by (simp add: rne_def)
  next
    case False
    then have "s < of_int n + 1 / 2" using hi by linarith
    then show ?thesis using fl by (simp add: rne_def)
  qed
qed

lemma round64_near:
  assumes "pow2 k \<le> \<bar>q\<bar>" "\<bar>q\<bar> < pow2 (k + 1)"
    and "\<bar>\<bar>q\<bar> / pow2 (max k (- 1022) - 52) - of_int n\<bar> < 1 / 2
         \<or> (\<bar>\<bar>q\<bar> / pow2 (max k (- 1022) - 52) - of_int n\<bar> = 1 / 2 \<and> even n)"
  shows "round64 q =
     (let m = of_int n * pow2 (max k (- 1022) - 52)
      in if pow2 1024 \<le> m then (if q < 0 then NInf else PInf)
         else if n = 0 then (if q < 0 then NZero else Fin 0)
         else Fin (if q < 0 then - m else m))"
proof -
  have h: "rne (\<bar>q\<bar> / pow2 (max k (- 1022) - 52)) = n"
    using assms(3) by (rule rne_eqI)
  show ?thesis
    by (simp only: round64_at [OF assms(1,2)] Let_def h)
qed

lemma round64_exact:
  assumes "pow2 k \<le> \<bar>q\<bar>" "\<bar>q\<bar> < pow2 (k + 1)" "k \<le> 1023"
    and "\<bar>q\<bar> / pow2 (max k (- 1022) - 52) = of_int n"
  shows "round64 q = Fin q"
proof -
  define u where "u = max k (- 1022) - 52"
  have qpos: "0 < \<bar>q\<bar>" using assms(1) pow2_pos [of k] by linarith
  have "of_int n * pow2 u = \<bar>q\<bar> / pow2 u * pow2 u"
    using assms(4) by (simp add: u_def)
  then have m: "of_int n * pow2 u = \<bar>q\<bar>"
    by simp
  have n0: "n \<noteq> 0" using m qpos by auto
  have "pow2 (k + 1) \<le> pow2 1024" using assms(3) by simp
  then have lt: "\<not> pow2 1024 \<le> \<bar>q\<bar>" using assms(2) by linarith
  have near: "\<bar>\<bar>q\<bar> / pow2 (max k (- 1022) - 52) - of_int n\<bar> < 1 / 2
         \<or> (\<bar>\<bar>q\<bar> / pow2 (max k (- 1022) - 52) - of_int n\<bar> = 1 / 2 \<and> even n)"
    using assms(4) by simp
  have "round64 q =
     (if pow2 1024 \<le> \<bar>q\<bar> then (if q < 0 then NInf else PInf)
      else if n = 0 then (if q < 0 then NZero else Fin 0)
      else Fin (if q < 0 then - \<bar>q\<bar> else \<bar>q\<bar>))"
    using round64_near [OF assms(1,2) near] by (simp only: Let_def u_def [symmetric] m)
  also have "\<dots> = Fin (if q < 0 then - \<bar>q\<bar> else \<bar>q\<bar>)"
    using lt n0 by (simp only: if_False)
  also have "\<dots> = Fin q"
    by (simp add: abs_if)
  finally show ?thesis .
qed

lemma round64_not_nan [simp]: "round64 q \<noteq> NaN"
  by (simp add: round64_def Let_def)

lemma fadd_Fin: "x \<noteq> 0 \<or> y \<noteq> 0 \<Longrightarrow> fadd (Fin x) (Fin y) = round64 (x + y)"
  by (auto simp add: fadd_def is_nan_def is_inf_def is_zero_def)

lemma fsub_Fin: "x \<noteq> 0 \<or> y \<noteq> 0 \<Longrightarrow> fsub (Fin x) (Fin y) = round64 (x - y)"
  by (auto simp add: fsub_def fadd_def is_nan_def is_inf_def is_zero_def)

lemma fsub_self: "fsub (Fin x) (Fin x) = Fin 0"
  by (auto simp add: fsub_def fadd_def is_nan_def is_inf_def is_zero_def round64_def)

lemma fmul_Fin: "x \<noteq> 0 \<Longrightarrow> y \<noteq> 0 \<Longrightarrow> fmul (Fin x) (Fin y) = round64 (x * y)"
  by (simp add: fmul_def is_nan_def is_inf_def is_zero_def)

lemma fdiv_Fin: "x \<noteq> 0 \<Longrightarrow> y \<noteq> 0 \<Longrightarrow> fdiv (Fin x) (Fin y) = round64 (x / y)"
  by (simp add: fdiv_def is_nan_def is_inf_def is_zero_def)

lemma round64_1: "round64 1 = Fin 1"
  by (rule round64_exact [of "0" _ "4503599627370496"]) (simp_all add: pow2_def)

lemma round64_2: "round64 2 = Fin 2"
  by (rule round64_exact [of "1" _ "4503599627370496"]) (simp_all add: pow2_def)

lemma round64_3: "round64 3 = Fin 3"
  by (rule round64_exact [of "1" _ "6755399441055744"]) (simp_all add: pow2_def)

lemma round64_5: "round64 5 = Fin 5"
  by (rule round64_exact [of "2" _ "5629499534213120"]) (simp_all add: pow2_def)

lemma round64_6: "round64 6 = Fin 6"
  by (rule round64_exact [of "2" _ "6755399441055744"]) (simp_all add: pow2_def)

lemma round64_7: "round64 7 = Fin 7"
  by (rule round64_exact [of "2" _ "7881299347898368"]) (simp_all add: pow2_def)

lemma round64_10: "round64 10 = Fin 10"
  by (rule round64_exact [of "3" _ "5629499534213120"]) (simp_all add: pow2_def)

lemma round64_12: "round64 12 = Fin 12"
  by (rule round64_exact [of "3" _ "6755399441055744"]) (simp_all add: pow2_def)

lemma round64_18: "round64 18 = Fin 18"
  by (rule round64_exact [of "4" _ "5066549580791808"]) (simp_all add: pow2_def)

lemma round64_20: "round64 20 = Fin 20"
  by (rule round64_exact [of "4" _ "5629499534213120"]) (simp_all add: pow2_def)

lemma round64_24: "round64 24 = Fin 24"
  by (rule round64_exact [of "4" _ "6755399441055744"]) (simp_all add: pow2_def)

lemma round64_25: "round64 25 = Fin 25"
  by (rule round64_exact [of "4" _ "7036874417766400"]) (simp_all add: pow2_def)

lemma round64_36: "round64 36 = Fin 36"
  by (rule round64_exact [of "5" _ "5066549580791808"]) (simp_all add: pow2_def)

lemmas round64_small = round64_1 round64_2 round64_3 round64_5 round64_6 round64_7 round64_10
  round64_12 round64_18 round64_20 round64_24 round64_25 round64_36

lemma sqrt64_36: "sqrt64 36 = Fin 6"
  by (simp add: sqrt64_at [of 5 _ "6 * 2 ^ 50"] pow2_def Let_def)

lemma Triangle_345_Perimeter:
  "Triangle_Perimeter \<lparr>A = Fin 3, B = Fin 4, C = Fin 5\<rparr> = Fin 12"
  by (simp add: Triangle_Perimeter_def fadd_Fin round64_small)

lemma Triangle_345_Area:
  "Triangle_Area \<lparr>A = Fin 3, B = Fin 4, C = Fin 5\<rparr> = Fin 6"
  by (simp add: Triangle_Area_def Triangle_345_Perimeter fdiv_Fin fsub_Fin fmul_Fin
      round64_small sqrt64_36 Let_def)








lemma fadd_not_nan:
  "\<not> is_nan x \<Longrightarrow> is_finite y \<Longrightarrow> \<not> is_nan (fadd x y)"
  by (auto simp add: fadd_def is_nan_def is_inf_def is_finite_def)

lemma is_finite_not_nan: "is_finite x \<Longrightarrow> \<not> is_nan x"
  by (simp add: is_finite_def)



lemma fadd_commute: "fadd x y = fadd y x"
  by (auto simp add: fadd_def add.commute)

lemma fmul_special:
  "fmul NaN x = NaN" "fmul PInf (Fin 0) = NaN"
  "q \<noteq> 0 \<Longrightarrow> fmul (Fin q) (Fin 0) = (if q < 0 then NZero else Fin 0)"
  "q \<noteq> 0 \<Longrightarrow> fmul (Fin 0) (Fin q) = (if q < 0 then NZero else Fin 0)"
  "fmul (Fin 0) (Fin 0) = Fin 0"
  by (simp_all add: fmul_def is_nan_def is_inf_def is_zero_def)

lemma big_sum_absorbs:
  "fadd (Fin 1) (Fin (2 ^ 512)) = Fin (2 ^ 512)"
  "fadd (Fin (2 ^ 512)) (Fin 1) = Fin (2 ^ 512)"
  "fsub (Fin (2 ^ 512)) (Fin 1) = Fin (2 ^ 512)"
  by (simp_all add: fadd_Fin fsub_Fin round64_near [of 512 _ "2 ^ 52"]
      round64_near [of 511 _ "2 ^ 53"] pow2_def Let_def)

lemma big_double:
  "fadd (Fin (2 ^ 512)) (Fin (2 ^ 512)) = Fin (2 ^ 513)"
  "fdiv (Fin (2 ^ 513)) (Fin 2) = Fin (2 ^ 512)"
  by (simp_all add: fadd_Fin fdiv_Fin round64_exact [of 513 _ "2 ^ 52"]
      round64_exact [of 512 _ "2 ^ 52"] pow2_def)

lemma big_square_overflows:
  "fmul (Fin (2 ^ 512)) (Fin (2 ^ 512)) = PInf"
  by (simp add: fmul_Fin round64_near [of 1024 _ "2 ^ 52"] pow2_def Let_def)

lemma Triangle_1_big_big_Area:
  "Triangle_Area \<lparr>A = Fin 1, B = Fin (2 ^ 512), C = Fin (2 ^ 512)\<rparr> = NaN"
  by (simp only: Triangle_Area_def Triangle_Perimeter_def Let_def Triangle.select_convs
      big_sum_absorbs big_double big_square_overflows fsub_self fmul_special fsqrt.simps)

lemma Triangle_big_1_big_Area:
  "Triangle_Area \<lparr>A = Fin (2 ^ 512), B = Fin 1, C = Fin (2 ^ 512)\<rparr> = Fin 0"
proof -
  have z: "fmul (Fin (2 ^ 512)) (Fin 0) = Fin 0" "fmul (Fin 0) (Fin (2 ^ 512)) = Fin 0"
    by (simp_all add: fmul_special)
  have s: "fsqrt (Fin 0) = Fin 0" by simp
  show ?thesis
    by (simp only: Triangle_Area_def Triangle_Perimeter_def Let_def Triangle.select_convs
        big_sum_absorbs big_double fsub_self z fmul_special(5) s)
qed

lemma Perimeter_big_1_1:
  "Triangle_Perimeter \<lparr>A = Fin (2 ^ 53), B = Fin 1, C = Fin 1\<rparr> = Fin (2 ^ 53)"
proof -
  have "fadd (Fin (2 ^ 53)) (Fin 1) = Fin (2 ^ 53)"
    by (simp add: fadd_Fin round64_near [of 53 _ "2 ^ 52"] pow2_def Let_def)
  then show ?thesis
    by (simp only: Triangle_Perimeter_def Triangle.select_convs)
qed

lemma Perimeter_1_1_big:
  "Triangle_Perimeter \<lparr>A = Fin 1, B = Fin 1, C = Fin (2 ^ 53)\<rparr> = Fin (2 ^ 53 + 2)"
proof -
  have "fadd (Fin 1) (Fin 1) = Fin 2"
    by (simp add: fadd_Fin round64_small)
  moreover have "fadd (Fin 2) (Fin (2 ^ 53)) = Fin (2 ^ 53 + 2)"
    by (simp add: fadd_Fin round64_exact [of 53 _ "2 ^ 52 + 1"] pow2_def)
  ultimately show ?thesis
    by (simp only: Triangle_Perimeter_def Triangle.select_convs)
qed

lemma degenerate_big:
  "fadd (Fin (2 ^ 400)) (Fin (2 ^ 400)) = Fin (2 ^ 401)"
  "fadd (Fin (2 ^ 401)) (Fin (2 ^ 401)) = Fin (2 ^ 402)"
  "fdiv (Fin (2 ^ 402)) (Fin 2) = Fin (2 ^ 401)"
  "fsub (Fin (2 ^ 401)) (Fin (2 ^ 400)) = Fin (2 ^ 400)"
  "fmul (Fin (2 ^ 401)) (Fin (2 ^ 400)) = Fin (2 ^ 801)"
  by (simp_all add: fadd_Fin fdiv_Fin fsub_Fin fmul_Fin round64_exact [of 401 _ "2 ^ 52"]
      round64_exact [of 402 _ "2 ^ 52"] round64_exact [of 400 _ "2 ^ 52"]
      round64_exact [of 801 _ "2 ^ 52"] pow2_def)

lemma degenerate_big_overflows:
  "fmul (Fin (2 ^ 801)) (Fin (2 ^ 400)) = PInf"
  by (simp add: fmul_Fin round64_near [of 1201 _ "2 ^ 52"] pow2_def Let_def)

lemma round64_Fin_exactD:
  assumes "round64 z = Fin z" "z \<noteq> 0"
  shows "\<bar>z\<bar> / pow2 (max (ilog2 \<bar>z\<bar>) (- 1022) - 52)
           = of_int (rne (\<bar>z\<bar> / pow2 (max (ilog2 \<bar>z\<bar>) (- 1022) - 52)))"
proof -
  define u where "u = max (ilog2 \<bar>z\<bar>) (- 1022) - 52"
  define n where "n = rne (\<bar>z\<bar> / pow2 u)"
  have r: "round64 z =
     (if pow2 1024 \<le> of_int n * pow2 u then (if z < 0 then NInf else PInf)
      else if n = 0 then (if z < 0 then NZero else Fin 0)
      else Fin (if z < 0 then - (of_int n * pow2 u) else of_int n * pow2 u))"
    using assms(2) by (simp add: round64_def Let_def u_def n_def)
  have "of_int n * pow2 u = \<bar>z\<bar>"
    using r assms by (auto split: if_splits)
  then have "\<bar>z\<bar> / pow2 u = of_int n"
    by (simp add: field_simps)
  then show ?thesis
    by (simp add: u_def n_def)
qed

lemma ilog2_double:
  assumes "0 < q"
  shows "ilog2 (2 * q) = ilog2 q + 1"
proof (rule ilog2_unique)
  have b: "pow2 (ilog2 q) \<le> q" "q < pow2 (ilog2 q + 1)"
    using ilog2_bounds [OF assms] by simp_all
  show "pow2 (ilog2 q + 1) \<le> 2 * q"
    using b(1) by (simp add: pow2_Suc)
  have e: "pow2 (ilog2 q + 1 + 1) = 2 * pow2 (ilog2 q + 1)"
    by (rule pow2_Suc)
  show "2 * q < pow2 (ilog2 q + 1 + 1)"
    unfolding e using b(2) by linarith
qed

lemma round64_double:
  assumes "round64 z = Fin z" "z \<noteq> 0"
  shows "round64 (2 * z) = Fin (2 * z) \<or> is_inf (round64 (2 * z))"
proof -
  define k where "k = ilog2 \<bar>z\<bar>"
  define n where "n = rne (\<bar>z\<bar> / pow2 (max k (- 1022) - 52))"
  have qpos: "0 < \<bar>z\<bar>" using assms(2) by simp
  have ex: "\<bar>z\<bar> / pow2 (max k (- 1022) - 52) = of_int n"
    using round64_Fin_exactD [OF assms] by (simp add: k_def n_def)
  have b: "pow2 k \<le> \<bar>z\<bar>" "\<bar>z\<bar> < pow2 (k + 1)"
    using ilog2_bounds [OF qpos] by (simp_all add: k_def)
  have e1: "pow2 (k + 1) = 2 * pow2 k" and e2: "pow2 (k + 1 + 1) = 2 * pow2 (k + 1)"
    by (rule pow2_Suc)+
  have az: "\<bar>2 * z\<bar> = 2 * \<bar>z\<bar>"
    by (simp add: abs_mult)
  have b2: "pow2 (k + 1) \<le> \<bar>2 * z\<bar>" "\<bar>2 * z\<bar> < pow2 (k + 1 + 1)"
    unfolding az e2 using b unfolding e1 by linarith+
  have sc: "\<exists>n'. \<bar>2 * z\<bar> / pow2 (max (k + 1) (- 1022) - 52) = of_int n'"
  proof (cases "- 1022 \<le> k")
    case True
    then have u': "max (k + 1) (- 1022) - 52 = (max k (- 1022) - 52) + 1" by simp
    have "pow2 (max (k + 1) (- 1022) - 52) = 2 * pow2 (max k (- 1022) - 52)"
      unfolding u' by (rule pow2_Suc)
    then have "\<bar>2 * z\<bar> / pow2 (max (k + 1) (- 1022) - 52) = \<bar>z\<bar> / pow2 (max k (- 1022) - 52)"
      by (simp add: az)
    then show ?thesis using ex by auto
  next
    case False
    then have "max (k + 1) (- 1022) - 52 = max k (- 1022) - 52" by simp
    then have "\<bar>2 * z\<bar> / pow2 (max (k + 1) (- 1022) - 52) = 2 * (\<bar>z\<bar> / pow2 (max k (- 1022) - 52))"
      by (simp add: abs_mult)
    also have "\<dots> = of_int (2 * n)" using ex by simp
    finally show ?thesis by blast
  qed
  then obtain n' where n': "\<bar>2 * z\<bar> / pow2 (max (k + 1) (- 1022) - 52) = of_int n'" ..
  show ?thesis
  proof (cases "k + 1 \<le> 1023")
    case True
    have "round64 (2 * z) = Fin (2 * z)"
      using b2 True n' by (rule round64_exact)
    then show ?thesis ..
  next
    case False
    have near: "\<bar>\<bar>2 * z\<bar> / pow2 (max (k + 1) (- 1022) - 52) - of_int n'\<bar> < 1 / 2
         \<or> (\<bar>\<bar>2 * z\<bar> / pow2 (max (k + 1) (- 1022) - 52) - of_int n'\<bar> = 1 / 2 \<and> even n')"
      using n' by simp
    have m: "of_int n' * pow2 (max (k + 1) (- 1022) - 52) = \<bar>2 * z\<bar>"
      using n' [symmetric] by simp
    have "pow2 1024 \<le> pow2 (k + 1)" using False by simp
    then have big: "pow2 1024 \<le> \<bar>2 * z\<bar>" using b2(1) by linarith
    have "round64 (2 * z) = (if 2 * z < 0 then NInf else PInf)"
      using round64_near [OF b2 near] big by (simp only: Let_def m if_True)
    then show ?thesis by (simp add: is_inf_def)
  qed
qed


lemma fmul_not_finite: "\<not> is_finite x \<Longrightarrow> \<not> is_finite (fmul x y)"
  by (auto simp add: fmul_def is_finite_def is_nan_def is_inf_def)

lemma fdiv_2_finite: "is_finite (fdiv x (Fin 2)) \<Longrightarrow> is_finite x"
  by (auto simp add: fdiv_def is_finite_def is_nan_def is_inf_def is_zero_def split: if_splits)

lemma fadd_finite: "is_finite (fadd x y) \<Longrightarrow> is_finite x \<and> is_finite y"
  by (auto simp add: fadd_def is_finite_def is_nan_def is_inf_def split: if_splits)

lemma fadd_zero_zero: "is_zero x \<Longrightarrow> is_zero y \<Longrightarrow> is_zero (fadd x y)"
  by (auto simp add: fadd_def is_zero_def is_nan_def is_inf_def)

lemma fdiv_zero_2: "is_zero x \<Longrightarrow> is_zero (fdiv x (Fin 2))"
  by (auto simp add: fdiv_def is_zero_def is_nan_def is_inf_def)

lemma fsub_zero_zero: "is_zero x \<Longrightarrow> is_zero y \<Longrightarrow> is_zero (fsub x y)"
  by (auto simp add: fsub_def fadd_def is_zero_def is_nan_def is_inf_def)

lemma fmul_finite_zero: "is_finite x \<Longrightarrow> is_zero y \<Longrightarrow> is_zero (fmul x y)"
  by (auto simp add: fmul_def is_finite_def is_zero_def is_nan_def is_inf_def)

lemma fsqrt_zero: "is_zero x \<Longrightarrow> is_zero (fsqrt x)"
  by (auto simp add: is_zero_def)

lemma finite_cases: "is_finite x \<Longrightarrow> is_zero x \<or> (\<exists>z. z \<noteq> 0 \<and> x = Fin z)"
  by (cases x) (auto simp add: is_finite_def is_zero_def is_nan_def is_inf_def)

lemma semi_perimeter_degenerate:
  assumes c: "is_float64 c" and eq: "feq (fadd a b) c"
    and fin: "is_finite (semi_perimeter \<lparr>A = a, B = b, C = c\<rparr>)"
  shows "is_zero (fsub (semi_perimeter \<lparr>A = a, B = b, C = c\<rparr>) c)"
proof -
  define s where "s = fadd a b"
  define p where "p = fdiv (fadd s c) (Fin 2)"
  have p: "semi_perimeter \<lparr>A = a, B = b, C = c\<rparr> = p"
    by (simp add: semi_perimeter_def Triangle_Perimeter_def p_def s_def)
  have "is_finite (fadd s c)"
    using fin unfolding p p_def by (rule fdiv_2_finite)
  then have cfin: "is_finite c"
    using fadd_finite by blast
  have sc: "s = c \<or> (is_zero s \<and> is_zero c)"
    using eq by (simp add: feq_def s_def)
  have "is_zero (fsub p c)"
  proof (cases "is_zero c")
    case True
    then have "is_zero s" using sc by auto
    then have "is_zero p"
      unfolding p_def using True by (intro fdiv_zero_2 fadd_zero_zero)
    then show ?thesis using True by (rule fsub_zero_zero)
  next
    case False
    then obtain z where z: "z \<noteq> 0" "c = Fin z"
      using finite_cases [OF cfin] by blast
    have s: "s = Fin z" using sc False z by simp
    have rz: "round64 z = Fin z"
      using c z by (simp add: is_float64_def)
    have P: "fadd s c = round64 (2 * z)"
      using z by (simp add: s fadd_Fin)
    have "is_finite (round64 (2 * z))"
      using \<open>is_finite (fadd s c)\<close> P by simp
    then have r2: "round64 (2 * z) = Fin (2 * z)"
      using round64_double [OF rz z(1)] by (auto simp add: is_finite_def)
    have "p = fdiv (Fin (2 * z)) (Fin 2)"
      unfolding p_def P r2 ..
    also have "\<dots> = round64 z"
      using z(1) by (simp add: fdiv_Fin)
    finally have "p = Fin z"
      using rz by simp
    then show ?thesis
      using z by (simp add: fsub_self is_zero_def)
  qed
  then show ?thesis by (simp add: p)
qed

lemma semi_perimeter_1_1_2: "semi_perimeter \<lparr>A = Fin 1, B = Fin 1, C = Fin 2\<rparr> = Fin 2"
proof -
  have "round64 4 = Fin 4"
    by (rule round64_exact [of 2 _ "2 ^ 52"]) (simp_all add: pow2_def)
  then show ?thesis
    by (simp add: semi_perimeter_def Triangle_Perimeter_def fadd_Fin fdiv_Fin round64_small)
qed



lemma is_zero_val: "is_zero x \<Longrightarrow> val x = 0"
  by (auto simp add: is_zero_def)










section \<open>Properties\<close>

text \<open>
  C1.  For every triangle, \<^verbatim>\<open>Area()\<close> is Heron's formula \<open>sqrt(p*(p-a)*(p-b)*(p-c))\<close>
  at the semi-perimeter \<open>p = Perimeter()/2\<close>, in float64 arithmetic.
\<close>

theorem Triangle_Area_is_Heron:
  "Triangle_Area t = Heron_spec (fdiv (Triangle_Perimeter t) (Fin 2)) (A t) (B t) (C t)"
  by (simp add: Triangle_Area_def Heron_spec_def Heron_radicand_def Let_def)

text \<open>
  C5.  For every rectangle of width \<open>w\<close> and height \<open>h\<close>, \<^verbatim>\<open>Perimeter()\<close> is
  \<open>2 * (w + h)\<close> and \<^verbatim>\<open>Area()\<close> is \<open>w * h\<close>, in float64 arithmetic.
\<close>

theorem Rectangle_Perimeter_Area:
  "Rectangle_Perimeter \<lparr>Width = w, Height = h\<rparr> = fmul (Fin 2) (fadd w h)
   \<and> Rectangle_Area \<lparr>Width = w, Height = h\<rparr> = fmul w h"
  by (simp add: Rectangle_Perimeter_def Rectangle_Area_def)

text \<open>
  C6.  The triangle with sides 3, 4, 5 has \<^verbatim>\<open>Perimeter()\<close> exactly 12 and \<^verbatim>\<open>Area()\<close>
  exactly 6, hence within \<open>10\<^sup>-\<^sup>3\<close> of 6.
\<close>

theorem Triangle_3_4_5:
  "Triangle_Perimeter \<lparr>A = Fin 3, B = Fin 4, C = Fin 5\<rparr> = Fin 12
   \<and> Triangle_Area \<lparr>A = Fin 3, B = Fin 4, C = Fin 5\<rparr> = Fin 6
   \<and> \<bar>val (Triangle_Area \<lparr>A = Fin 3, B = Fin 4, C = Fin 5\<rparr>) - 6\<bar> \<le> 1 / 1000"
  by (simp add: Triangle_345_Perimeter Triangle_345_Area)

text \<open>
  C7.  The rectangle 6 by 4 has \<^verbatim>\<open>Perimeter()\<close> exactly 20 and \<^verbatim>\<open>Area()\<close> exactly 24;
  the square 5 by 5 has \<^verbatim>\<open>Perimeter()\<close> exactly 20 and \<^verbatim>\<open>Area()\<close> exactly 25.
\<close>

theorem Rectangle_6_4_and_5_5:
  "Rectangle_Perimeter \<lparr>Width = Fin 6, Height = Fin 4\<rparr> = Fin 20
   \<and> Rectangle_Area \<lparr>Width = Fin 6, Height = Fin 4\<rparr> = Fin 24
   \<and> Rectangle_Perimeter \<lparr>Width = Fin 5, Height = Fin 5\<rparr> = Fin 20
   \<and> Rectangle_Area \<lparr>Width = Fin 5, Height = Fin 5\<rparr> = Fin 25"
  by (simp add: Rectangle_Perimeter_def Rectangle_Area_def fadd_Fin fmul_Fin round64_small)

text \<open>
  C4.  For every triangle with finite sides (degenerate and negative ones included),
  \<^verbatim>\<open>Perimeter()\<close> is \<open>a + b + c\<close> in float64 arithmetic, summed left to right, and the
  result is never a NaN.  The methods are total functions: there is no error path.
\<close>

theorem Triangle_Perimeter_total:
  assumes "is_finite a" "is_finite b" "is_finite c"
  shows "Triangle_Perimeter \<lparr>A = a, B = b, C = c\<rparr> = fadd (fadd a b) c
         \<and> \<not> is_nan (Triangle_Perimeter \<lparr>A = a, B = b, C = c\<rparr>)"
proof -
  have "\<not> is_nan (fadd a b)"
    using assms(1,2) by (simp add: fadd_not_nan is_finite_not_nan)
  then have "\<not> is_nan (fadd (fadd a b) c)"
    using assms(3) by (rule fadd_not_nan)
  then show ?thesis
    by (simp add: Triangle_Perimeter_def)
qed

theorem Triangle_Perimeter_total_witness:
  "is_finite (Fin (- 1)) \<and> is_finite (Fin 0) \<and> is_finite (Fin 2)
   \<and> Triangle_Perimeter \<lparr>A = Fin (- 1), B = Fin 0, C = Fin 2\<rparr> = fadd (fadd (Fin (- 1)) (Fin 0)) (Fin 2)
   \<and> \<not> is_nan (Triangle_Perimeter \<lparr>A = Fin (- 1), B = Fin 0, C = Fin 2\<rparr>)"
proof -
  have f: "is_finite (Fin (- 1))" "is_finite (Fin 0)" "is_finite (Fin 2)"
    by (simp_all add: is_finite_def is_nan_def is_inf_def)
  show ?thesis
    using f Triangle_Perimeter_total [OF f] by blast
qed



text \<open>
  C9, as stated, fails: float64 addition and multiplication are commutative but not
  associative.  With sides \<open>2\<^sup>5\<^sup>3\<close>, 1, 1 the perimeter is \<open>2\<^sup>5\<^sup>3\<close> (each 1 is rounded away)
  and with sides 1, 1, \<open>2\<^sup>5\<^sup>3\<close> it is \<open>2\<^sup>5\<^sup>3 + 2\<close>.  With sides 1, \<open>2\<^sup>5\<^sup>1\<^sup>2\<close>, \<open>2\<^sup>5\<^sup>1\<^sup>2\<close> the
  product \<open>p*(p-a)\<close> overflows to \<open>+Inf\<close> and meets \<open>p-b = 0\<close>, so the area is NaN; with
  the first two sides exchanged the product starts with \<open>p*0\<close> and the area is 0.
\<close>

theorem Triangle_permutation_counterexample:
  "Triangle_Perimeter \<lparr>A = Fin (2 ^ 53), B = Fin 1, C = Fin 1\<rparr>
     \<noteq> Triangle_Perimeter \<lparr>A = Fin 1, B = Fin 1, C = Fin (2 ^ 53)\<rparr>
   \<and> Triangle_Area \<lparr>A = Fin 1, B = Fin (2 ^ 512), C = Fin (2 ^ 512)\<rparr> = NaN
   \<and> Triangle_Area \<lparr>A = Fin (2 ^ 512), B = Fin 1, C = Fin (2 ^ 512)\<rparr> = Fin 0"
proof -
  have "Fin (2 ^ 53) \<noteq> Fin (2 ^ 53 + 2)"
    by simp
  then show ?thesis
    by (simp only: Perimeter_big_1_1 Perimeter_1_1_big Triangle_1_big_big_Area
        Triangle_big_1_big_Area simp_thms)
qed

text \<open>
  C9, amended.  For every triangle, \<^verbatim>\<open>Perimeter()\<close> is unchanged when the sides
  \<open>A\<close> and \<open>B\<close> are exchanged.
\<close>

theorem Triangle_Perimeter_swap_A_B:
  "Triangle_Perimeter \<lparr>A = a, B = b, C = c\<rparr> = Triangle_Perimeter \<lparr>A = b, B = a, C = c\<rparr>"
  by (simp add: Triangle_Perimeter_def fadd_commute [of a b])

text \<open>
  C10, as stated, fails where the product \<open>p*(p-a)*(p-b)\<close> overflows: with sides
  \<open>2\<^sup>4\<^sup>0\<^sup>0\<close>, \<open>2\<^sup>4\<^sup>0\<^sup>0\<close>, \<open>2\<^sup>4\<^sup>0\<^sup>1\<close> the sum \<open>a + b\<close> is exactly \<open>c\<close>, the product reaches
  \<open>2\<^sup>1\<^sup>2\<^sup>0\<^sup>1\<close>, that is \<open>+Inf\<close>, and \<open>+Inf * 0\<close> is a NaN.
\<close>

theorem Triangle_degenerate_counterexample:
  "feq (fadd (Fin (2 ^ 400)) (Fin (2 ^ 400))) (Fin (2 ^ 401))
   \<and> Triangle_Area \<lparr>A = Fin (2 ^ 400), B = Fin (2 ^ 400), C = Fin (2 ^ 401)\<rparr> = NaN"
proof -
  have "feq (Fin (2 ^ 401)) (Fin (2 ^ 401))"
    by (simp add: feq_def is_nan_def)
  moreover have "Triangle_Area \<lparr>A = Fin (2 ^ 400), B = Fin (2 ^ 400), C = Fin (2 ^ 401)\<rparr> = NaN"
    by (simp only: Triangle_Area_def Triangle_Perimeter_def Let_def Triangle.select_convs
        degenerate_big degenerate_big_overflows fsub_self fmul_special fsqrt.simps)
  ultimately show ?thesis
    by (simp only: degenerate_big simp_thms)
qed

text \<open>
  C10, amended.  For every triangle that is exactly degenerate (\<^verbatim>\<open>a + b == c\<close> in
  float64, \<open>c\<close> a float64 value), \<^verbatim>\<open>Area()\<close> is a zero, not a NaN, provided the product
  \<open>p*(p-a)*(p-b)\<close> computed on the way is finite.
\<close>

theorem Triangle_degenerate_Area:
  assumes "is_float64 c" and "feq (fadd a b) c"
    and "is_finite (fmul (fmul (semi_perimeter \<lparr>A = a, B = b, C = c\<rparr>)
            (fsub (semi_perimeter \<lparr>A = a, B = b, C = c\<rparr>) a))
            (fsub (semi_perimeter \<lparr>A = a, B = b, C = c\<rparr>) b))"
  shows "feq (Triangle_Area \<lparr>A = a, B = b, C = c\<rparr>) (Fin 0)"
proof -
  define p where "p = semi_perimeter \<lparr>A = a, B = b, C = c\<rparr>"
  have X: "is_finite (fmul (fmul p (fsub p a)) (fsub p b))"
    using assms(3) by (simp add: p_def)
  have "is_finite (fmul p (fsub p a))"
    using X fmul_not_finite by blast
  then have "is_finite p"
    using fmul_not_finite by blast
  then have "is_zero (fsub p c)"
    unfolding p_def using assms(1,2) by (intro semi_perimeter_degenerate)
  then have "is_zero (fmul (fmul (fmul p (fsub p a)) (fsub p b)) (fsub p c))"
    using X by (intro fmul_finite_zero)
  then have "is_zero (fsqrt (fmul (fmul (fmul p (fsub p a)) (fsub p b)) (fsub p c)))"
    by (rule fsqrt_zero)
  moreover have "Triangle_Area \<lparr>A = a, B = b, C = c\<rparr>
      = fsqrt (fmul (fmul (fmul p (fsub p a)) (fsub p b)) (fsub p c))"
    by (simp add: Triangle_Area_def p_def semi_perimeter_def Let_def)
  ultimately show ?thesis
    by (auto simp add: feq_def is_zero_def is_nan_def)
qed

theorem Triangle_degenerate_Area_witness:
  "is_float64 (Fin 2) \<and> feq (fadd (Fin 1) (Fin 1)) (Fin 2)
   \<and> is_finite (fmul (fmul (semi_perimeter \<lparr>A = Fin 1, B = Fin 1, C = Fin 2\<rparr>)
            (fsub (semi_perimeter \<lparr>A = Fin 1, B = Fin 1, C = Fin 2\<rparr>) (Fin 1)))
            (fsub (semi_perimeter \<lparr>A = Fin 1, B = Fin 1, C = Fin 2\<rparr>) (Fin 1)))
   \<and> feq (Triangle_Area \<lparr>A = Fin 1, B = Fin 1, C = Fin 2\<rparr>) (Fin 0)"
proof -
  have h1: "is_float64 (Fin 2)"
    by (simp add: is_float64_def round64_small)
  have h2: "feq (fadd (Fin 1) (Fin 1)) (Fin 2)"
    by (simp add: fadd_Fin round64_small feq_def is_nan_def)
  have h3: "is_finite (fmul (fmul (semi_perimeter \<lparr>A = Fin 1, B = Fin 1, C = Fin 2\<rparr>)
            (fsub (semi_perimeter \<lparr>A = Fin 1, B = Fin 1, C = Fin 2\<rparr>) (Fin 1)))
            (fsub (semi_perimeter \<lparr>A = Fin 1, B = Fin 1, C = Fin 2\<rparr>) (Fin 1)))"
    by (simp add: semi_perimeter_1_1_2 fsub_Fin fmul_Fin round64_small is_finite_def
        is_nan_def is_inf_def)
  show ?thesis
    using h1 h2 h3 Triangle_degenerate_Area [OF h1 h2 h3] by blast
qed



end
